theory Spec2Isabelle
  imports Main "HOL-Library.Sublist"
begin

section \<open>Tracker callbacks of \<^verbatim>\<open>ultralytics/tracker/track.py\<close>\<close>

text \<open>
  The module holds two prediction callbacks: \<^verbatim>\<open>on_predict_start\<close> builds the list of
  tracker objects of a predictor, \<^verbatim>\<open>on_predict_postprocess_end\<close> feeds the detections
  of every batch slot to a tracker and rewrites the slot's result from the tracks that
  come back. Both mutate the predictor and call collaborators that live outside the
  module (the YAML loader, the tracker classes, the result container). The embedding
  passes the predictor and a world (object store and call log) explicitly and returns
  them together with the outcome of the call, so that the state left behind by a raised
  exception is part of the model.
\<close>

subsection \<open>Values, errors and configuration\<close>

datatype error =
    AssertionError string
  | AttributeError string
  | KeyError string
  | IndexError
  | External string

text \<open>
  A value read from the tracker YAML file: a string, or any other YAML value, kept as the
  text that Python's \<^verbatim>\<open>str()\<close> renders for it (the only thing the module does
  with a value that is not a string is to format it into a message).
\<close>

datatype yaml_value = YStr string | YOther string

fun py_str :: "yaml_value \<Rightarrow> string" where
  "py_str (YStr s) = s"
| "py_str (YOther s) = s"

text \<open>\<^verbatim>\<open>IterableSimpleNamespace(**d)\<close>: attribute name and value, in file order.\<close>

type_synonym cfg = "(string \<times> yaml_value) list"

definition getattr :: "cfg \<Rightarrow> string \<Rightarrow> error + yaml_value" where
  "getattr c name =
     (case map_of c name of None \<Rightarrow> Inl (AttributeError name) | Some v \<Rightarrow> Inr v)"

datatype tracker_kind = BYTETracker | BOTSORT

definition TRACKER_MAP :: "(string \<times> tracker_kind) list" where
  "TRACKER_MAP = [(''bytetrack'', BYTETracker), (''botsort'', BOTSORT)]"

text \<open>\<^verbatim>\<open>TRACKER_MAP[key]\<close>: a key that is not a string of the table raises KeyError.\<close>

fun TRACKER_MAP_getitem :: "yaml_value \<Rightarrow> error + tracker_kind" where
  "TRACKER_MAP_getitem (YStr s) =
     (case map_of TRACKER_MAP s of None \<Rightarrow> Inl (KeyError s) | Some k \<Rightarrow> Inr k)"
| "TRACKER_MAP_getitem (YOther s) = Inl (KeyError s)"

definition quoted :: "string \<Rightarrow> string" where
  "quoted s = CHR 0x27 # s @ [CHR 0x27]"

text \<open>
  The message of the assertion of line 30:
  \<^verbatim>\<open>f"Only support 'bytetrack' and 'botsort' for now, but got '{cfg.tracker_type}'"\<close>
\<close>

definition unsupported_message :: "yaml_value \<Rightarrow> string" where
  "unsupported_message v =
     ''Only support '' @ quoted ''bytetrack'' @ '' and '' @ quoted ''botsort''
       @ '' for now, but got '' @ quoted (py_str v)"

subsection \<open>Detections, tracks and results\<close>

text \<open>
  Modelled from the spec: the result container \<^verbatim>\<open>Results\<close> (its \<^verbatim>\<open>boxes\<close>,
  \<^verbatim>\<open>__getitem__\<close> and \<^verbatim>\<open>update\<close>) is defined outside this module. Following the
  data model of the specification, a frame result is the list of its detections; a
  detection has its row of box data (region, score, class) and the data the container
  keeps beside the box (mask, keypoints).
\<close>

datatype ('b, 'm) detection = Detection (boxes: 'b) (payload: 'm)

text \<open>
  A row of the array a tracker returns: all columns but the last (\<^verbatim>\<open>tracks[:, :-1]\<close>:
  region, identity, score, class) and the last column (\<^verbatim>\<open>tracks[:, -1]\<close>), the
  position of the originating detection in the list given to \<^verbatim>\<open>update\<close>. The
  trackers number the detections from zero, so the position is a natural number; the
  rows themselves are kept abstract, since the module only moves them.
\<close>

datatype 'b track = Track (tdata: 'b) (tidx: nat)

definition getitem :: "'a list \<Rightarrow> nat \<Rightarrow> error + 'a" where
  "getitem xs i = (if i < length xs then Inr (xs ! i) else Inl IndexError)"

text \<open>
  Modelled from the spec: \<^verbatim>\<open>Results.__getitem__(idx)\<close> with a list of positions builds
  a new result holding the detections at these positions, in the order of the list; a
  position outside the result raises IndexError.
\<close>

fun select :: "('b, 'm) detection list \<Rightarrow> nat list \<Rightarrow> error + ('b, 'm) detection list" where
  "select ds [] = Inr []"
| "select ds (j # js) =
     (case getitem ds j of
        Inl e \<Rightarrow> Inl e
      | Inr d \<Rightarrow> (case select ds js of Inl e \<Rightarrow> Inl e | Inr r \<Rightarrow> Inr (d # r)))"

text \<open>
  Modelled from the spec: \<^verbatim>\<open>Results.update(boxes=rows)\<close> replaces the box data of the
  result by the given rows and keeps everything else.
\<close>

definition update_boxes :: "('b, 'm) detection list \<Rightarrow> 'b list \<Rightarrow> ('b, 'm) detection list" where
  "update_boxes ds rows = map2 (\<lambda>d row. Detection row (payload d)) ds rows"

subsection \<open>Predictor, world and collaborators\<close>

text \<open>\<^verbatim>\<open>predictor.batch[2]\<close> is one image or a list of images.\<close>

datatype 'img im0s = One 'img | Many "'img list"

text \<open>
  The attributes of the predictor the module touches. \<open>trackers\<close> is \<open>None\<close> while
  the attribute does not exist (\<^verbatim>\<open>hasattr\<close> is false); otherwise it is the list of
  references to the tracker objects. \<open>bs\<close> is \<^verbatim>\<open>predictor.dataset.bs\<close>, the number of
  slots of a batch.
\<close>

record ('b, 'm, 'img) predictor =
  trackers :: "nat list option"
  args_tracker :: string
  from_img :: bool
  bs :: nat
  batch_im0s :: "'img im0s"
  results :: "('b, 'm) detection list list"

text \<open>Calls to the collaborators, in the order they are issued.\<close>

datatype 'b event =
    CheckYaml string
  | YamlLoad string
  | Construct tracker_kind cfg int
  | Update nat nat nat "'b track list"

text \<open>
  The world outside the predictor: the store of tracker objects (reference to internal
  state of the tracker), the next free reference, and the log of collaborator calls.
  \<open>Update i j a tracks\<close> records that slot \<open>i\<close> called \<^verbatim>\<open>predictor.trackers[j].update\<close>,
  that the object is the one at reference \<open>a\<close>, and what the call returned.
\<close>

record ('s, 'b) world =
  heap :: "nat \<Rightarrow> 's"
  next_ref :: nat
  trace :: "'b event list"

text \<open>
  The collaborators: \<^verbatim>\<open>check_yaml\<close>, \<^verbatim>\<open>yaml_load\<close> (followed by the namespace
  constructor), the constructor of a tracker class and the \<^verbatim>\<open>update\<close> method
  of a tracker object, which returns its tracks and leaves the object in a new state.
  The constructor gets the class, \<^verbatim>\<open>args\<close> and \<^verbatim>\<open>frame_rate\<close>; its last argument
  is the number of objects allocated so far, so that a constructor may succeed on one
  call and raise on a later one.
\<close>

record ('s, 'b, 'img) collaborators =
  check_yaml :: "string \<Rightarrow> error + string"
  yaml_load :: "string \<Rightarrow> error + cfg"
  construct :: "tracker_kind \<Rightarrow> cfg \<Rightarrow> int \<Rightarrow> nat \<Rightarrow> error + 's"
  update :: "'s \<Rightarrow> 'b list \<Rightarrow> 'img \<Rightarrow> 'b track list \<times> 's"

definition log :: "'b event \<Rightarrow> ('s, 'b) world \<Rightarrow> ('s, 'b) world" where
  "log e w = w\<lparr>trace := trace w @ [e]\<rparr>"

text \<open>The calls logged since the world \<open>w\<close>.\<close>

definition emitted :: "('s, 'b) world \<Rightarrow> ('s, 'b) world \<Rightarrow> 'b event list" where
  "emitted w w' = drop (length (trace w)) (trace w')"

fun is_Construct :: "'b event \<Rightarrow> bool" where
  "is_Construct (Construct k c r) = True"
| "is_Construct e = False"

fun update_slot :: "'b event \<Rightarrow> nat option" where
  "update_slot (Update i j a ts) = Some i"
| "update_slot e = None"

subsection \<open>\<^verbatim>\<open>on_predict_start\<close>\<close>

text \<open>
  \<^verbatim>\<open>TRACKER_MAP[cfg.tracker_type](args=cfg, frame_rate=30)\<close>: the new object gets the
  next free reference.
\<close>

definition new_tracker ::
  "('s, 'b, 'img) collaborators \<Rightarrow> cfg \<Rightarrow> ('s, 'b) world \<Rightarrow> (error + nat) \<times> ('s, 'b) world" where
  "new_tracker env c w =
     (case getattr c ''tracker_type'' of
        Inl e \<Rightarrow> (Inl e, w)
      | Inr v \<Rightarrow>
          (case TRACKER_MAP_getitem v of
             Inl e \<Rightarrow> (Inl e, w)
           | Inr k \<Rightarrow>
               (let w1 = log (Construct k c 30) w in
                case construct env k c 30 (next_ref w1) of
                  Inl e \<Rightarrow> (Inl e, w1)
                | Inr s \<Rightarrow>
                    (Inr (next_ref w1),
                     w1\<lparr>heap := (heap w1)(next_ref w1 := s), next_ref := Suc (next_ref w1)\<rparr>))))"

text \<open>The loop of lines 37 to 39; the first argument counts the iterations left.\<close>

fun append_trackers ::
  "('s, 'b, 'img) collaborators \<Rightarrow> cfg \<Rightarrow> nat \<Rightarrow> nat list \<Rightarrow> ('s, 'b) world
     \<Rightarrow> (error + nat list) \<times> ('s, 'b) world" where
  "append_trackers env c 0 ts w = (Inr ts, w)"
| "append_trackers env c (Suc n) ts w =
     (case new_tracker env c w of
        (Inl e, w') \<Rightarrow> (Inl e, w')
      | (Inr a, w') \<Rightarrow> append_trackers env c n (ts @ [a]) w')"

definition on_predict_start ::
  "('s, 'b, 'img) collaborators \<Rightarrow> bool \<Rightarrow> bool \<Rightarrow> ('b, 'm, 'img) predictor \<Rightarrow> ('s, 'b) world
     \<Rightarrow> error option \<times> ('b, 'm, 'img) predictor \<times> ('s, 'b) world" where
  "on_predict_start env persist multiple_videos p w =
     (if trackers p \<noteq> None \<and> persist then (None, p, w)
      else
        let w1 = log (CheckYaml (args_tracker p)) w in
        case check_yaml env (args_tracker p) of
          Inl e \<Rightarrow> (Some e, p, w1)
        | Inr tracker \<Rightarrow>
            (let w2 = log (YamlLoad tracker) w1 in
             case yaml_load env tracker of
               Inl e \<Rightarrow> (Some e, p, w2)
             | Inr c \<Rightarrow>
                 (case getattr c ''tracker_type'' of
                    Inl e \<Rightarrow> (Some e, p, w2)
                  | Inr v \<Rightarrow>
                      if v \<notin> set [YStr ''bytetrack'', YStr ''botsort'']
                      then (Some (AssertionError (unsupported_message v)), p, w2)
                      else if from_img p \<and> 1 \<le> bs p \<and> \<not> multiple_videos then
                        (case new_tracker env c w2 of
                           (Inl e, w3) \<Rightarrow> (Some e, p, w3)
                         | (Inr a, w3) \<Rightarrow> (None, p\<lparr>trackers := Some ([] @ [a])\<rparr>, w3))
                      else
                        (case append_trackers env c (bs p) [] w2 of
                           (Inl e, w3) \<Rightarrow> (Some e, p, w3)
                         | (Inr ts, w3) \<Rightarrow> (None, p\<lparr>trackers := Some ts\<rparr>, w3)))))"

subsection \<open>\<^verbatim>\<open>on_predict_postprocess_end\<close>\<close>

text \<open>
  The body of the loop for slot \<open>i\<close> (lines 55 to 67). \<open>batch_of_frames\<close> and
  \<open>ims\<close> are the locals computed before the loop.
\<close>

definition slot_step ::
  "('s, 'b, 'img) collaborators \<Rightarrow> bool \<Rightarrow> 'img list \<Rightarrow> nat
     \<Rightarrow> ('b, 'm, 'img) predictor \<Rightarrow> ('s, 'b) world
     \<Rightarrow> error option \<times> ('b, 'm, 'img) predictor \<times> ('s, 'b) world" where
  "slot_step env batch_of_frames ims i p w =
     (case getitem (results p) i of
        Inl e \<Rightarrow> (Some e, p, w)
      | Inr r \<Rightarrow>
          (let det = map boxes r in
           if length det = 0 then (None, p, w)
           else
             let j = (if batch_of_frames then 0 else i) in
             case (case trackers p of
                     None \<Rightarrow> Inl (AttributeError ''trackers'')
                   | Some ts \<Rightarrow> getitem ts j) of
               Inl e \<Rightarrow> (Some e, p, w)
             | Inr a \<Rightarrow>
                 (case getitem ims i of
                    Inl e \<Rightarrow> (Some e, p, w)
                  | Inr im \<Rightarrow>
                      (let (tracks, s') = update env (heap w a) det im;
                           w' = log (Update i j a tracks) (w\<lparr>heap := (heap w)(a := s')\<rparr>)
                       in
                       if length tracks = 0 then (None, p, w')
                       else
                         let idx = map tidx tracks in
                         case select r idx of
                           Inl e \<Rightarrow> (Some e, p, w')
                         | Inr r' \<Rightarrow>
                             (None,
                              p\<lparr>results :=
                                  (results p)[i := update_boxes r' (map tdata tracks)]\<rparr>,
                              w')))))"

text \<open>\<^verbatim>\<open>for i in range(bs)\<close>: an exception ends the loop and leaves the state as it is.\<close>

fun slots_loop ::
  "('s, 'b, 'img) collaborators \<Rightarrow> bool \<Rightarrow> 'img list \<Rightarrow> nat list
     \<Rightarrow> ('b, 'm, 'img) predictor \<Rightarrow> ('s, 'b) world
     \<Rightarrow> error option \<times> ('b, 'm, 'img) predictor \<times> ('s, 'b) world" where
  "slots_loop env batch_of_frames ims [] p w = (None, p, w)"
| "slots_loop env batch_of_frames ims (i # rest) p w =
     (case slot_step env batch_of_frames ims i p w of
        (Some e, p', w') \<Rightarrow> (Some e, p', w')
      | (None, p', w') \<Rightarrow> slots_loop env batch_of_frames ims rest p' w')"

definition on_predict_postprocess_end ::
  "('s, 'b, 'img) collaborators \<Rightarrow> bool \<Rightarrow> ('b, 'm, 'img) predictor \<Rightarrow> ('s, 'b) world
     \<Rightarrow> error option \<times> ('b, 'm, 'img) predictor \<times> ('s, 'b) world" where
  "on_predict_postprocess_end env multiple_videos p w =
     (let n = bs p;
          ims = (case batch_im0s p of Many l \<Rightarrow> l | One im \<Rightarrow> [im]);
          batch_of_frames = (from_img p \<and> 1 \<le> n \<and> \<not> multiple_videos)
      in slots_loop env batch_of_frames ims [0..<n] p w)"

text \<open>
  What lines 63 to 67 leave in \<^verbatim>\<open>predictor.results[i]\<close> when the slot held \<open>r\<close>
  and the tracker returned \<open>tr\<close> (the assignment of line 66 is not reached when the
  selection raises).
\<close>

definition reconciled :: "('b, 'm) detection list \<Rightarrow> 'b track list \<Rightarrow> ('b, 'm) detection list" where
  "reconciled r tr =
     (if tr = [] then r
      else case select r (map tidx tr) of
             Inl e \<Rightarrow> r
           | Inr r' \<Rightarrow> update_boxes r' (map tdata tr))"


subsection \<open>A stub tracker and a batch of three still images\<close>

text \<open>
  A deterministic stub for concrete runs: the stub tracker counts its calls, answers a
  list of three detections with two tracks that refer to detections 2 and 0, in this
  order, and any other list with no track. Its constructor raises once four trackers
  exist.
\<close>

definition stub_env :: "(nat, nat, unit) collaborators" where
  "stub_env =
     \<lparr>check_yaml = (\<lambda>name. Inr name),
      yaml_load = (\<lambda>path.
        if path = ''bytetrack.yaml'' then Inr [(''tracker_type'', YStr ''bytetrack'')]
        else if path = ''sort.yaml'' then Inr [(''tracker_type'', YStr ''sort'')]
        else Inl (External ''no such file'')),
      construct = (\<lambda>k c r a. if a < 4 then Inr 0 else Inl (External ''out of memory'')),
      update = (\<lambda>s det im.
        (if length det = 3 then [Track 92 2, Track 90 0] else [], Suc s))\<rparr>"

definition still_images :: "(nat, nat, unit) predictor" where
  "still_images =
     \<lparr>trackers = None, args_tracker = ''bytetrack.yaml'', from_img = True, bs = 3,
      batch_im0s = Many [(), (), ()],
      results = [[Detection 10 100, Detection 11 101, Detection 12 102], [],
                 [Detection 13 103]]\<rparr>"

definition fresh_world :: "nat \<Rightarrow> (nat, nat) world" where
  "fresh_world n = \<lparr>heap = (\<lambda>a. 0), next_ref = n, trace = []\<rparr>"


section \<open>Properties\<close>

subsection \<open>Initialisation\<close>

lemma emitted_self: "emitted w w = []"
  by (simp add: emitted_def)

lemma emitted_append: "trace w' = trace w @ evs \<Longrightarrow> emitted w w' = evs"
  by (simp add: emitted_def)

lemma new_tracker_Inr:
  assumes "new_tracker env c w = (Inr a, w')"
  shows "\<exists>v k s. getattr c ''tracker_type'' = Inr v \<and> TRACKER_MAP_getitem v = Inr k
           \<and> construct env k c 30 (next_ref w) = Inr s
           \<and> a = next_ref w
           \<and> w' = w\<lparr>heap := (heap w)(next_ref w := s), next_ref := Suc (next_ref w),
                     trace := trace w @ [Construct k c 30]\<rparr>"
  using assms
  by (auto simp: new_tracker_def log_def Let_def split: sum.splits)

lemma append_trackers_Inr:
  assumes "append_trackers env c n ts w = (Inr ts', w')"
  shows "ts' = ts @ [next_ref w ..< next_ref w + n] \<and> next_ref w' = next_ref w + n
         \<and> (\<forall>a < next_ref w. heap w' a = heap w a)
         \<and> (n = 0 \<longrightarrow> w' = w)
         \<and> (0 < n \<longrightarrow> (\<exists>v k. getattr c ''tracker_type'' = Inr v \<and> TRACKER_MAP_getitem v = Inr k
                \<and> trace w' = trace w @ replicate n (Construct k c 30)
                \<and> (\<forall>a. next_ref w \<le> a \<and> a < next_ref w + n \<longrightarrow>
                       construct env k c 30 a = Inr (heap w' a))))"
  using assms
proof (induction n arbitrary: ts w)
  case 0
  then show ?case by simp
next
  case (Suc n)
  from Suc.prems obtain a w1 where
    nt: "new_tracker env c w = (Inr a, w1)" and
    rest: "append_trackers env c n (ts @ [a]) w1 = (Inr ts', w')"
    by (auto split: prod.splits sum.splits)
  from new_tracker_Inr [OF nt] obtain v k s where
    v: "getattr c ''tracker_type'' = Inr v" and k: "TRACKER_MAP_getitem v = Inr k" and
    s: "construct env k c 30 (next_ref w) = Inr s" and a: "a = next_ref w" and
    w1: "w1 = w\<lparr>heap := (heap w)(next_ref w := s), next_ref := Suc (next_ref w),
                     trace := trace w @ [Construct k c 30]\<rparr>"
    by blast
  note ih = Suc.IH [OF rest]
  have n1: "next_ref w1 = Suc (next_ref w)" using w1 by simp
  have ts': "ts' = ts @ [next_ref w ..< next_ref w + Suc n]"
    using ih a n1 by (simp add: upt_rec [of "next_ref w"])
  have nr: "next_ref w' = next_ref w + Suc n" using ih n1 by simp
  have old: "\<forall>b < next_ref w. heap w' b = heap w b"
    using ih n1 w1 by simp
  have tr: "trace w' = trace w @ replicate (Suc n) (Construct k c 30)"
  proof (cases n)
    case 0
    then show ?thesis using ih w1 by simp
  next
    case (Suc m)
    then show ?thesis using ih w1 v k s by (auto simp: replicate_append_same)
  qed
  have new: "\<forall>b. next_ref w \<le> b \<and> b < next_ref w + Suc n \<longrightarrow>
                construct env k c 30 b = Inr (heap w' b)"
  proof (intro allI impI)
    fix b assume b: "next_ref w \<le> b \<and> b < next_ref w + Suc n"
    show "construct env k c 30 b = Inr (heap w' b)"
    proof (cases "b = next_ref w")
      case True
      then show ?thesis using ih n1 w1 s by simp
    next
      case False
      with b have "0 < n" "next_ref w1 \<le> b" "b < next_ref w1 + n" using n1 by auto
      then show ?thesis using ih v k s by auto
    qed
  qed
  show ?case using ts' nr old tr new v k s by auto
qed

lemma supported_kind:
  "v \<in> set [YStr ''bytetrack'', YStr ''botsort''] \<Longrightarrow> \<exists>k. TRACKER_MAP_getitem v = Inr k"
  by (auto simp: TRACKER_MAP_def)

lemma on_predict_start_None:
  assumes run: "on_predict_start env persist mv p w = (None, p', w')"
    and enter: "\<not> (trackers p \<noteq> None \<and> persist)"
  shows "\<exists>f c v k n. check_yaml env (args_tracker p) = Inr f \<and> yaml_load env f = Inr c
           \<and> getattr c ''tracker_type'' = Inr v
           \<and> v \<in> set [YStr ''bytetrack'', YStr ''botsort'']
           \<and> TRACKER_MAP_getitem v = Inr k
           \<and> n = (if from_img p \<and> 1 \<le> bs p \<and> \<not> mv then 1 else bs p)
           \<and> p' = p\<lparr>trackers := Some [next_ref w ..< next_ref w + n]\<rparr>
           \<and> next_ref w' = next_ref w + n
           \<and> trace w' = trace w @ [CheckYaml (args_tracker p), YamlLoad f]
                           @ replicate n (Construct k c 30)
           \<and> (\<forall>a < next_ref w. heap w' a = heap w a)
           \<and> (\<forall>a. next_ref w \<le> a \<and> a < next_ref w + n \<longrightarrow>
                  construct env k c 30 a = Inr (heap w' a))"
proof -
  from run enter obtain f where f: "check_yaml env (args_tracker p) = Inr f"
    by (auto simp: on_predict_start_def Let_def split: sum.splits)
  from run enter f obtain c where c: "yaml_load env f = Inr c"
    by (auto simp: on_predict_start_def Let_def split: sum.splits)
  from run enter f c obtain v where v: "getattr c ''tracker_type'' = Inr v"
    by (auto simp: on_predict_start_def Let_def split: sum.splits)
  from run enter f c v have sup: "v \<in> set [YStr ''bytetrack'', YStr ''botsort'']"
    by (auto simp: on_predict_start_def Let_def split: sum.splits if_splits)
  from supported_kind [OF sup] obtain k where k: "TRACKER_MAP_getitem v = Inr k" ..
  define w2 where "w2 = log (YamlLoad f) (log (CheckYaml (args_tracker p)) w)"
  have w2: "heap w2 = heap w" "next_ref w2 = next_ref w"
    "trace w2 = trace w @ [CheckYaml (args_tracker p), YamlLoad f]"
    by (simp_all add: w2_def log_def)
  define n where "n = (if from_img p \<and> 1 \<le> bs p \<and> \<not> mv then 1 else bs p)"
  have main: "p' = p\<lparr>trackers := Some [next_ref w ..< next_ref w + n]\<rparr>
      \<and> next_ref w' = next_ref w + n
      \<and> trace w' = trace w @ [CheckYaml (args_tracker p), YamlLoad f]
                      @ replicate n (Construct k c 30)
      \<and> (\<forall>a < next_ref w. heap w' a = heap w a)
      \<and> (\<forall>a. next_ref w \<le> a \<and> a < next_ref w + n \<longrightarrow>
             construct env k c 30 a = Inr (heap w' a))"
  proof (cases "from_img p \<and> 1 \<le> bs p \<and> \<not> mv")
    case True
    then have n1: "n = 1" by (simp add: n_def)
    from True run enter f c v sup obtain a where
      nt: "new_tracker env c w2 = (Inr a, w')" and p': "p' = p\<lparr>trackers := Some [a]\<rparr>"
      by (auto simp: on_predict_start_def Let_def w2_def split: sum.splits prod.splits)
    from new_tracker_Inr [OF nt] v k obtain s where
      s: "construct env k c 30 (next_ref w2) = Inr s" and a: "a = next_ref w2" and
      w': "w' = w2\<lparr>heap := (heap w2)(next_ref w2 := s), next_ref := Suc (next_ref w2),
                     trace := trace w2 @ [Construct k c 30]\<rparr>"
      by auto
    have new: "\<forall>b. next_ref w \<le> b \<and> b < next_ref w + n \<longrightarrow>
                 construct env k c 30 b = Inr (heap w' b)"
    proof (intro allI impI)
      fix b assume "next_ref w \<le> b \<and> b < next_ref w + n"
      then have "b = next_ref w" using n1 by simp
      then show "construct env k c 30 b = Inr (heap w' b)" using s w' w2 by simp
    qed
    have A: "p' = p\<lparr>trackers := Some [next_ref w ..< next_ref w + n]\<rparr>"
      using p' a w2 n1 by simp
    have B: "next_ref w' = next_ref w + n" using w' w2 n1 by simp
    have C: "trace w' = trace w @ [CheckYaml (args_tracker p), YamlLoad f]
                           @ replicate n (Construct k c 30)"
      using w' w2 n1 by simp
    have D: "\<forall>b < next_ref w. heap w' b = heap w b" using w' w2 by simp
    from A B C D new show ?thesis by (intro conjI)
  next
    case False
    then have nb: "n = bs p" unfolding n_def by (simp only: if_False)
    from False run enter f c v sup obtain ts where
      at: "append_trackers env c (bs p) [] w2 = (Inr ts, w')" and
      p': "p' = p\<lparr>trackers := Some ts\<rparr>"
      by (auto simp: on_predict_start_def Let_def w2_def split: sum.splits prod.splits)
    note facts = append_trackers_Inr [OF at]
    have A: "p' = p\<lparr>trackers := Some [next_ref w ..< next_ref w + n]\<rparr>"
      using p' facts w2 nb by simp
    have B: "next_ref w' = next_ref w + n" using facts w2 nb by simp
    have D: "\<forall>b < next_ref w. heap w' b = heap w b" using facts w2 by simp
    have CE: "trace w' = trace w @ [CheckYaml (args_tracker p), YamlLoad f]
                           @ replicate n (Construct k c 30)
        \<and> (\<forall>b. next_ref w \<le> b \<and> b < next_ref w + n \<longrightarrow>
               construct env k c 30 b = Inr (heap w' b))"
    proof (cases "bs p")
      case 0
      with facts have "w' = w2" by simp
      then show ?thesis using w2 nb 0 by auto
    next
      case (Suc m)
      with facts obtain v' k' where
        "getattr c ''tracker_type'' = Inr v'" "TRACKER_MAP_getitem v' = Inr k'"
        "trace w' = trace w2 @ replicate (bs p) (Construct k' c 30)"
        "\<forall>a. next_ref w2 \<le> a \<and> a < next_ref w2 + bs p \<longrightarrow>
               construct env k' c 30 a = Inr (heap w' a)"
        by auto
      moreover from this v k have "k' = k" by simp
      ultimately show ?thesis using w2 nb by simp
    qed
    from A B CE D show ?thesis by (intro conjI) simp_all
  qed
  from f c v sup k n_def main show ?thesis
    by (intro exI [of _ f] exI [of _ c] exI [of _ v] exI [of _ k] exI [of _ n] conjI) simp_all
qed

lemma on_predict_start_Some:
  assumes "on_predict_start env persist mv p w = (Some e, p', w')"
  shows "p' = p"
  using assms
  by (auto simp: on_predict_start_def Let_def split: sum.splits prod.splits if_splits)

lemma on_predict_start_noop:
  "trackers p \<noteq> None \<Longrightarrow> on_predict_start env True mv p w = (None, p, w)"
  by (simp add: on_predict_start_def)

text \<open>
  Initialisation returns normally whenever it is not skipped, the configuration loads, its
  \<open>tracker_type\<close> is supported and the constructor does not raise.
\<close>

lemma append_trackers_returns:
  assumes "getattr c ''tracker_type'' = Inr v" and "TRACKER_MAP_getitem v = Inr k"
    and "\<forall>a. next_ref w \<le> a \<and> a < next_ref w + n \<longrightarrow> (\<exists>s. construct env k c 30 a = Inr s)"
  shows "\<exists>ts' w'. append_trackers env c n ts w = (Inr ts', w')"
  using assms
proof (induction n arbitrary: ts w)
  case 0
  then show ?case by simp
next
  case (Suc n)
  from Suc.prems(3) obtain s where s: "construct env k c 30 (next_ref w) = Inr s" by auto
  define w1 where "w1 = (log (Construct k c 30) w)\<lparr>heap := (heap w)(next_ref w := s),
      next_ref := Suc (next_ref w)\<rparr>"
  have nt: "new_tracker env c w = (Inr (next_ref w), w1)"
    using Suc.prems(1,2) s by (simp add: new_tracker_def Let_def log_def w1_def)
  have "\<forall>a. next_ref w1 \<le> a \<and> a < next_ref w1 + n \<longrightarrow> (\<exists>s. construct env k c 30 a = Inr s)"
    using Suc.prems(3) by (simp add: w1_def log_def)
  from Suc.IH [OF Suc.prems(1,2) this, of "ts @ [next_ref w]"] nt show ?case by simp
qed

lemma on_predict_start_returns:
  assumes enter: "\<not> (trackers p \<noteq> None \<and> persist)"
    and path: "check_yaml env (args_tracker p) = Inr f"
    and load: "yaml_load env f = Inr c"
    and attr: "getattr c ''tracker_type'' = Inr v"
    and sup: "v \<in> set [YStr ''bytetrack'', YStr ''botsort'']"
    and kind: "TRACKER_MAP_getitem v = Inr k"
    and ctor: "\<forall>a. \<exists>s. construct env k c 30 a = Inr s"
  shows "\<exists>p' w'. on_predict_start env persist mv p w = (None, p', w')"
proof -
  define w2 where "w2 = log (YamlLoad f) (log (CheckYaml (args_tracker p)) w)"
  show ?thesis
  proof (cases "from_img p \<and> 1 \<le> bs p \<and> \<not> mv")
    case True
    from ctor obtain s where s: "construct env k c 30 (next_ref w2) = Inr s" by blast
    then obtain w3 where "new_tracker env c w2 = (Inr (next_ref w2), w3)"
      using attr kind by (simp add: new_tracker_def Let_def log_def)
    then show ?thesis
      using True enter path load attr sup
      by (simp add: on_predict_start_def Let_def w2_def)
  next
    case False
    from ctor have "\<forall>a. next_ref w2 \<le> a \<and> a < next_ref w2 + bs p \<longrightarrow>
        (\<exists>s. construct env k c 30 a = Inr s)" by blast
    from append_trackers_returns [OF attr kind this, of "[]"] obtain ts' w3 where
      "append_trackers env c (bs p) [] w2 = (Inr ts', w3)" by blast
    then show ?thesis
      using False enter path load attr sup
      by (auto simp: on_predict_start_def Let_def w2_def)
  qed
qed

subsection \<open>Reconciliation\<close>

lemma slot_step_empty:
  "i < length (results p) \<Longrightarrow> results p ! i = [] \<Longrightarrow> slot_step env b ims i p w = (None, p, w)"
  by (simp add: slot_step_def getitem_def)

lemma slot_step_cases [consumes 1, case_names skip call]:
  assumes "slot_step env b ims i p w = (out, p', w')"
  obtains
    (skip) "p' = p" "w' = w"
  | (call) ts tr s' where
      "i < length (results p)" "results p ! i \<noteq> []"
      "trackers p = Some ts" "(if b then 0 else i) < length ts" "i < length ims"
      "update env (heap w (ts ! (if b then 0 else i))) (map boxes (results p ! i)) (ims ! i)
         = (tr, s')"
      "w' = w\<lparr>heap := (heap w)(ts ! (if b then 0 else i) := s'),
               trace := trace w @ [Update i (if b then 0 else i) (ts ! (if b then 0 else i)) tr]\<rparr>"
      "tr = [] \<longrightarrow> out = None \<and> p' = p"
      "tr \<noteq> [] \<longrightarrow>
         (case select (results p ! i) (map tidx tr) of
            Inl e \<Rightarrow> out = Some e \<and> p' = p
          | Inr r' \<Rightarrow> out = None
              \<and> p' = p\<lparr>results := (results p)[i := update_boxes r' (map tdata tr)]\<rparr>)"
proof (cases "i < length (results p) \<and> results p ! i \<noteq> []
    \<and> (\<exists>ts. trackers p = Some ts \<and> (if b then 0 else i) < length ts) \<and> i < length ims")
  case False
  then have "p' = p \<and> w' = w"
    using assms
    by (auto simp: slot_step_def getitem_def Let_def split: option.splits if_splits)
  then show ?thesis using skip by blast
next
  case True
  then obtain ts where ts: "trackers p = Some ts" "(if b then 0 else i) < length ts" by blast
  obtain tr s' where
    u: "update env (heap w (ts ! (if b then 0 else i))) (map boxes (results p ! i)) (ims ! i)
         = (tr, s')"
    by (cases "update env (heap w (ts ! (if b then 0 else i))) (map boxes (results p ! i)) (ims ! i)")
  have w': "w' = w\<lparr>heap := (heap w)(ts ! (if b then 0 else i) := s'),
               trace := trace w @ [Update i (if b then 0 else i) (ts ! (if b then 0 else i)) tr]\<rparr>"
    using assms True ts u
    by (auto simp: slot_step_def getitem_def Let_def log_def split: sum.splits if_splits)
  have e: "tr = [] \<longrightarrow> out = None \<and> p' = p"
    using assms True ts u
    by (auto simp: slot_step_def getitem_def Let_def log_def split: sum.splits if_splits)
  have n: "tr \<noteq> [] \<longrightarrow>
         (case select (results p ! i) (map tidx tr) of
            Inl e \<Rightarrow> out = Some e \<and> p' = p
          | Inr r' \<Rightarrow> out = None
              \<and> p' = p\<lparr>results := (results p)[i := update_boxes r' (map tdata tr)]\<rparr>)"
    using assms True ts u
    by (auto simp: slot_step_def getitem_def Let_def log_def split: sum.splits if_splits)
  show ?thesis using call [OF _ _ ts(1) ts(2) _ u w' e n] True by blast
qed

lemma slot_step_effect:
  assumes "slot_step env b ims i p w = (out, p', w')"
  shows "\<exists>rs evs. p' = p\<lparr>results := rs\<rparr> \<and> length rs = length (results p)
           \<and> next_ref w' = next_ref w \<and> trace w' = trace w @ evs
           \<and> (\<forall>k. k \<noteq> i \<longrightarrow> rs ! k = results p ! k)
           \<and> (evs = [] \<longrightarrow> rs = results p \<and> heap w' = heap w)
           \<and> (evs \<noteq> [] \<longrightarrow> (\<exists>ts tr. evs = [Update i (if b then 0 else i) (ts ! (if b then 0 else i)) tr]
                  \<and> i < length (results p) \<and> results p ! i \<noteq> []
                  \<and> trackers p = Some ts \<and> (if b then 0 else i) < length ts \<and> i < length ims
                  \<and> rs ! i = reconciled (results p ! i) tr
                  \<and> (\<forall>a. a \<noteq> ts ! (if b then 0 else i) \<longrightarrow> heap w' a = heap w a)))"
  using assms
proof (cases rule: slot_step_cases)
  case skip
  then show ?thesis
    by (intro exI [of _ "results p"] exI [of _ "[]"]) simp
next
  case (call ts tr s')
  let ?j = "if b then 0 else i"
  let ?ev = "Update i ?j (ts ! ?j) tr"
  have rs: "\<exists>rs. p' = p\<lparr>results := rs\<rparr> \<and> length rs = length (results p)
      \<and> (\<forall>k. k \<noteq> i \<longrightarrow> rs ! k = results p ! k) \<and> rs ! i = reconciled (results p ! i) tr"
  proof (cases "tr = []")
    case True
    with call have "p' = p" by simp
    then show ?thesis using True
      by (intro exI [of _ "results p"]) (simp add: reconciled_def)
  next
    case False
    show ?thesis
    proof (cases "select (results p ! i) (map tidx tr)")
      case (Inl e)
      with call False have "p' = p" by simp
      then show ?thesis using False Inl
        by (intro exI [of _ "results p"]) (simp add: reconciled_def)
    next
      case (Inr r')
      with call False
      have "p' = p\<lparr>results := (results p)[i := update_boxes r' (map tdata tr)]\<rparr>" by simp
      then show ?thesis using False Inr call(1)
        by (intro exI [of _ "(results p)[i := update_boxes r' (map tdata tr)]"])
           (simp add: reconciled_def)
    qed
  qed
  then obtain rs where rs: "p' = p\<lparr>results := rs\<rparr>" "length rs = length (results p)"
      "\<forall>k. k \<noteq> i \<longrightarrow> rs ! k = results p ! k" "rs ! i = reconciled (results p ! i) tr"
    by blast
  show ?thesis
    using rs call
    by (intro exI [of _ rs] exI [of _ "[?ev]"]) auto
qed

lemma slots_loop_effect:
  assumes "slots_loop env b ims sl p w = (out, p', w')" and "distinct sl"
  shows "\<exists>rs evs. p' = p\<lparr>results := rs\<rparr> \<and> length rs = length (results p)
           \<and> next_ref w' = next_ref w \<and> trace w' = trace w @ evs
           \<and> (\<forall>e \<in> set evs. \<exists>i ts tr. i \<in> set sl
                  \<and> e = Update i (if b then 0 else i) (ts ! (if b then 0 else i)) tr
                  \<and> i < length (results p) \<and> results p ! i \<noteq> []
                  \<and> trackers p = Some ts \<and> (if b then 0 else i) < length ts \<and> i < length ims
                  \<and> rs ! i = reconciled (results p ! i) tr)
           \<and> (\<forall>k. (\<forall>e \<in> set evs. update_slot e \<noteq> Some k) \<longrightarrow> rs ! k = results p ! k)
           \<and> (\<forall>a. (\<forall>i j tr. Update i j a tr \<notin> set evs) \<longrightarrow> heap w' a = heap w a)"
  using assms
proof (induction sl arbitrary: p w)
  case Nil
  then show ?case
    by (intro exI [of _ "results p"] exI [of _ "[]"]) simp
next
  case (Cons i rest)
  obtain o1 p1 w1 where step: "slot_step env b ims i p w = (o1, p1, w1)"
    by (cases "slot_step env b ims i p w") auto
  from slot_step_effect [OF step] obtain rs1 evs1 where
    p1: "p1 = p\<lparr>results := rs1\<rparr>" and len1: "length rs1 = length (results p)" and
    nr1: "next_ref w1 = next_ref w" and tr1: "trace w1 = trace w @ evs1" and
    other1: "\<forall>k. k \<noteq> i \<longrightarrow> rs1 ! k = results p ! k" and
    quiet1: "evs1 = [] \<longrightarrow> rs1 = results p \<and> heap w1 = heap w" and
    call1: "evs1 \<noteq> [] \<longrightarrow> (\<exists>ts tr. evs1 = [Update i (if b then 0 else i) (ts ! (if b then 0 else i)) tr]
                  \<and> i < length (results p) \<and> results p ! i \<noteq> []
                  \<and> trackers p = Some ts \<and> (if b then 0 else i) < length ts \<and> i < length ims
                  \<and> rs1 ! i = reconciled (results p ! i) tr
                  \<and> (\<forall>a. a \<noteq> ts ! (if b then 0 else i) \<longrightarrow> heap w1 a = heap w a))"
    by blast
  have ev1: "\<forall>e \<in> set evs1. \<exists>ts tr. 
                  e = Update i (if b then 0 else i) (ts ! (if b then 0 else i)) tr
                  \<and> i < length (results p) \<and> results p ! i \<noteq> []
                  \<and> trackers p = Some ts \<and> (if b then 0 else i) < length ts \<and> i < length ims
                  \<and> rs1 ! i = reconciled (results p ! i) tr"
    using call1 by (cases "evs1 = []") auto
  have k1: "\<forall>k. (\<forall>e \<in> set evs1. update_slot e \<noteq> Some k) \<longrightarrow> rs1 ! k = results p ! k"
    using call1 quiet1 other1 by (cases "evs1 = []") auto
  have h1: "\<forall>a. (\<forall>i j tr. Update i j a tr \<notin> set evs1) \<longrightarrow> heap w1 a = heap w a"
    using call1 quiet1 by (cases "evs1 = []") auto
  show ?case
  proof (cases o1)
    case (Some e)
    with Cons.prems step have "p' = p1" "w' = w1" by auto
    then show ?thesis
      using p1 len1 nr1 tr1 ev1 k1 h1
      by (intro exI [of _ rs1] exI [of _ evs1]) fastforce
  next
    case None
    with Cons.prems step have rest: "slots_loop env b ims rest p1 w1 = (out, p', w')" by auto
    from Cons.prems have d: "distinct rest" and ni: "i \<notin> set rest" by auto
    from Cons.IH [OF rest d] obtain rs evs2 where
      p': "p' = p1\<lparr>results := rs\<rparr>" and len: "length rs = length (results p1)" and
      nr: "next_ref w' = next_ref w1" and tr: "trace w' = trace w1 @ evs2" and
      ev2: "\<forall>e \<in> set evs2. \<exists>k ts tr. k \<in> set rest
                  \<and> e = Update k (if b then 0 else k) (ts ! (if b then 0 else k)) tr
                  \<and> k < length (results p1) \<and> results p1 ! k \<noteq> []
                  \<and> trackers p1 = Some ts \<and> (if b then 0 else k) < length ts \<and> k < length ims
                  \<and> rs ! k = reconciled (results p1 ! k) tr" and
      k2: "\<forall>k. (\<forall>e \<in> set evs2. update_slot e \<noteq> Some k) \<longrightarrow> rs ! k = results p1 ! k" and
      h2: "\<forall>a. (\<forall>i j tr. Update i j a tr \<notin> set evs2) \<longrightarrow> heap w' a = heap w1 a"
      by blast
    have no_i: "\<forall>e \<in> set evs2. update_slot e \<noteq> Some i"
      using ev2 ni by fastforce
    have rsi: "rs ! i = rs1 ! i" using k2 no_i p1 by simp
    have A: "p' = p\<lparr>results := rs\<rparr>" using p' p1 by simp
    have B: "length rs = length (results p)" using len p1 len1 by simp
    have C: "next_ref w' = next_ref w" using nr nr1 by simp
    have D: "trace w' = trace w @ (evs1 @ evs2)" using tr tr1 by simp
    have E: "\<forall>e \<in> set (evs1 @ evs2). \<exists>k ts tr. k \<in> set (i # rest)
                  \<and> e = Update k (if b then 0 else k) (ts ! (if b then 0 else k)) tr
                  \<and> k < length (results p) \<and> results p ! k \<noteq> []
                  \<and> trackers p = Some ts \<and> (if b then 0 else k) < length ts \<and> k < length ims
                  \<and> rs ! k = reconciled (results p ! k) tr"
    proof
      fix e assume "e \<in> set (evs1 @ evs2)"
      then consider "e \<in> set evs1" | "e \<in> set evs2" by auto
      then show "\<exists>k ts tr. k \<in> set (i # rest)
                  \<and> e = Update k (if b then 0 else k) (ts ! (if b then 0 else k)) tr
                  \<and> k < length (results p) \<and> results p ! k \<noteq> []
                  \<and> trackers p = Some ts \<and> (if b then 0 else k) < length ts \<and> k < length ims
                  \<and> rs ! k = reconciled (results p ! k) tr"
      proof cases
        case 1
        with ev1 obtain ts tr where
          "e = Update i (if b then 0 else i) (ts ! (if b then 0 else i)) tr"
          "i < length (results p)" "results p ! i \<noteq> []"
          "trackers p = Some ts" "(if b then 0 else i) < length ts" "i < length ims"
          "rs1 ! i = reconciled (results p ! i) tr"
          by blast
        then show ?thesis using rsi
          by (intro exI [of _ i] exI [of _ ts] exI [of _ tr]) simp
      next
        case 2
        with ev2 obtain k ts tr where k: "k \<in> set rest"
          "e = Update k (if b then 0 else k) (ts ! (if b then 0 else k)) tr"
          "k < length (results p1)" "results p1 ! k \<noteq> []"
          "trackers p1 = Some ts" "(if b then 0 else k) < length ts" "k < length ims"
          "rs ! k = reconciled (results p1 ! k) tr"
          by blast
        from k(1) ni have "k \<noteq> i" by auto
        then have "results p1 ! k = results p ! k" using other1 p1 by simp
        then show ?thesis using k p1 len1
          by (intro exI [of _ k] exI [of _ ts] exI [of _ tr]) simp
      qed
    qed
    have F: "\<forall>k. (\<forall>e \<in> set (evs1 @ evs2). update_slot e \<noteq> Some k) \<longrightarrow> rs ! k = results p ! k"
      using k1 k2 p1 by auto
    have G: "\<forall>a. (\<forall>i j tr. Update i j a tr \<notin> set (evs1 @ evs2)) \<longrightarrow> heap w' a = heap w a"
      using h1 h2 by auto
    show ?thesis
      using A B C D E F G
      by (intro exI [of _ rs] exI [of _ "evs1 @ evs2"]) blast
  qed
qed

lemma select_in_range:
  "\<forall>j \<in> set js. j < length ds \<Longrightarrow> select ds js = Inr (map ((!) ds) js)"
  by (induction js) (simp_all add: getitem_def)

lemma reconciled_in_range:
  assumes "tr \<noteq> []" and "\<forall>t \<in> set tr. tidx t < length r"
  shows "reconciled r tr = map (\<lambda>t. Detection (tdata t) (payload (r ! tidx t))) tr"
proof -
  have "select r (map tidx tr) = Inr (map ((!) r) (map tidx tr))"
    using assms(2) by (intro select_in_range) simp
  then have "reconciled r tr = update_boxes (map ((!) r) (map tidx tr)) (map tdata tr)"
    using assms(1) by (simp add: reconciled_def)
  also have "\<dots> = map (\<lambda>t. Detection (tdata t) (payload (r ! tidx t))) tr"
    by (induction tr) (simp_all add: update_boxes_def)
  finally show ?thesis .
qed

lemma reconciled_empty: "reconciled r [] = r"
  by (simp add: reconciled_def)




lemma postprocess_effect:
  assumes run: "on_predict_postprocess_end env mv p w = (out, p', w')"
  shows "p' = p\<lparr>results := results p'\<rparr> \<and> length (results p') = length (results p)
           \<and> next_ref w' = next_ref w
           \<and> (\<forall>e \<in> set (emitted w w'). \<exists>i ts tr. i < bs p
                  \<and> e = Update i (if from_img p \<and> 1 \<le> bs p \<and> \<not> mv then 0 else i)
                          (ts ! (if from_img p \<and> 1 \<le> bs p \<and> \<not> mv then 0 else i)) tr
                  \<and> i < length (results p) \<and> results p ! i \<noteq> []
                  \<and> trackers p = Some ts
                  \<and> (if from_img p \<and> 1 \<le> bs p \<and> \<not> mv then 0 else i) < length ts
                  \<and> results p' ! i = reconciled (results p ! i) tr)
           \<and> (\<forall>k. (\<forall>e \<in> set (emitted w w'). update_slot e \<noteq> Some k) \<longrightarrow>
                  results p' ! k = results p ! k)
           \<and> (\<forall>a. (\<forall>i j tr. Update i j a tr \<notin> set (emitted w w')) \<longrightarrow> heap w' a = heap w a)"
proof -
  let ?b = "from_img p \<and> 1 \<le> bs p \<and> \<not> mv"
  let ?ims = "case batch_im0s p of Many l \<Rightarrow> l | One im \<Rightarrow> [im]"
  from run have loop: "slots_loop env ?b ?ims [0..<bs p] p w = (out, p', w')"
    by (simp add: on_predict_postprocess_end_def Let_def)
  have d: "distinct [0..<bs p]" by simp
  from slots_loop_effect [OF loop d] obtain rs evs where
    p': "p' = p\<lparr>results := rs\<rparr>" and len: "length rs = length (results p)" and
    nr: "next_ref w' = next_ref w" and tr: "trace w' = trace w @ evs" and
    ev: "\<forall>e \<in> set evs. \<exists>i ts tr. i \<in> set [0..<bs p]
                  \<and> e = Update i (if ?b then 0 else i) (ts ! (if ?b then 0 else i)) tr
                  \<and> i < length (results p) \<and> results p ! i \<noteq> []
                  \<and> trackers p = Some ts \<and> (if ?b then 0 else i) < length ts \<and> i < length ?ims
                  \<and> rs ! i = reconciled (results p ! i) tr" and
    quiet: "\<forall>k. (\<forall>e \<in> set evs. update_slot e \<noteq> Some k) \<longrightarrow> rs ! k = results p ! k" and
    hp: "\<forall>a. (\<forall>i j tr. Update i j a tr \<notin> set evs) \<longrightarrow> heap w' a = heap w a"
    by blast
  have em: "emitted w w' = evs" using tr by (rule emitted_append)
  have rs: "results p' = rs" using p' by simp
  have A: "p' = p\<lparr>results := results p'\<rparr>" using p' by simp
  have E: "\<forall>e \<in> set (emitted w w'). \<exists>i ts tr. i < bs p
                  \<and> e = Update i (if ?b then 0 else i) (ts ! (if ?b then 0 else i)) tr
                  \<and> i < length (results p) \<and> results p ! i \<noteq> []
                  \<and> trackers p = Some ts
                  \<and> (if ?b then 0 else i) < length ts
                  \<and> results p' ! i = reconciled (results p ! i) tr"
  proof
    fix e assume "e \<in> set (emitted w w')"
    with em ev obtain i ts tr where "i \<in> set [0..<bs p]"
        "e = Update i (if ?b then 0 else i) (ts ! (if ?b then 0 else i)) tr"
        "i < length (results p)" "results p ! i \<noteq> []"
        "trackers p = Some ts" "(if ?b then 0 else i) < length ts"
        "rs ! i = reconciled (results p ! i) tr"
      by blast
    then show "\<exists>i ts tr. i < bs p
                  \<and> e = Update i (if ?b then 0 else i) (ts ! (if ?b then 0 else i)) tr
                  \<and> i < length (results p) \<and> results p ! i \<noteq> []
                  \<and> trackers p = Some ts
                  \<and> (if ?b then 0 else i) < length ts
                  \<and> results p' ! i = reconciled (results p ! i) tr"
      using rs by (intro exI [of _ i] exI [of _ ts] exI [of _ tr]) simp
  qed
  from A len nr E quiet hp em rs show ?thesis by (intro conjI) simp_all
qed


subsection \<open>Concrete runs\<close>

lemma upt_3: "[0..<3] = [0, 1, 2]"
  by (simp add: upt_rec)

lemma start_shared:
  "\<exists>w'. on_predict_start stub_env False False still_images (fresh_world 0) =
          (None, still_images\<lparr>trackers := Some [0]\<rparr>, w')
     \<and> next_ref w' = 1
     \<and> trace w' = [CheckYaml ''bytetrack.yaml'', YamlLoad ''bytetrack.yaml'',
                Construct BYTETracker [(''tracker_type'', YStr ''bytetrack'')] 30]"
  by (simp add: on_predict_start_def stub_env_def still_images_def fresh_world_def log_def
      new_tracker_def getattr_def TRACKER_MAP_def Let_def)

lemma start_per_slot:
  "\<exists>w'. on_predict_start stub_env False True still_images (fresh_world 0) =
          (None, still_images\<lparr>trackers := Some [0, 1, 2]\<rparr>, w')
     \<and> next_ref w' = 3
     \<and> trace w' = [CheckYaml ''bytetrack.yaml'', YamlLoad ''bytetrack.yaml'',
                Construct BYTETracker [(''tracker_type'', YStr ''bytetrack'')] 30,
                Construct BYTETracker [(''tracker_type'', YStr ''bytetrack'')] 30,
                Construct BYTETracker [(''tracker_type'', YStr ''bytetrack'')] 30]"
  by (simp add: on_predict_start_def stub_env_def still_images_def fresh_world_def log_def
      new_tracker_def getattr_def TRACKER_MAP_def Let_def eval_nat_numeral)

lemma post_shared:
  "\<exists>w'. on_predict_postprocess_end stub_env False (still_images\<lparr>trackers := Some [0]\<rparr>)
           (fresh_world 1) =
     (None,
      still_images\<lparr>trackers := Some [0],
        results := [[Detection 92 102, Detection 90 100], [], [Detection 13 103]]\<rparr>, w')
     \<and> next_ref w' = 1 \<and> heap w' 0 = 2
     \<and> trace w' = [Update 0 0 0 [Track 92 2, Track 90 0], Update 2 0 0 []]"
  by (simp add: on_predict_postprocess_end_def upt_3 slot_step_def getitem_def update_boxes_def
      stub_env_def still_images_def fresh_world_def log_def Let_def)

lemma post_per_slot:
  "\<exists>w'. on_predict_postprocess_end stub_env True (still_images\<lparr>trackers := Some [0, 1, 2]\<rparr>)
          (fresh_world 3) =
     (None,
      still_images\<lparr>trackers := Some [0, 1, 2],
        results := [[Detection 92 102, Detection 90 100], [], [Detection 13 103]]\<rparr>, w')
     \<and> next_ref w' = 3 \<and> heap w' 0 = 1 \<and> heap w' 1 = 0 \<and> heap w' 2 = 1
     \<and> trace w' = [Update 0 0 0 [Track 92 2, Track 90 0], Update 2 2 2 []]"
  by (simp add: on_predict_postprocess_end_def upt_3 slot_step_def getitem_def update_boxes_def
      stub_env_def still_images_def fresh_world_def log_def Let_def)

section \<open>Claims\<close>

lemma length_filter_replicate_Construct:
  "filter is_Construct ([CheckYaml a, YamlLoad f] @ replicate n (Construct k c r))
     = replicate n (Construct k c r)"
  by (induction n) auto

text \<open>
  Claim C1, as amended. An initialisation that is not skipped by the persist guard and
  returns normally stores exactly one tracker when the source is made of in-memory images,
  the batch size is at least one and \<open>multiple_videos\<close> is false (the shared mode), and
  exactly \<open>bs\<close> trackers, one per slot, in every other case. The stored references are
  the objects constructed by this call, one constructor call each. Hence exactly one
  tracker is stored if and only if the condition of the shared mode holds or the batch
  has a single slot: with \<open>bs = 1\<close> the loop of lines 37 to 39 builds one tracker too.
\<close>

theorem stream_assignment_count:
  assumes run: "on_predict_start env persist multiple_videos p w = (None, p', w')"
    and enter: "\<not> (trackers p \<noteq> None \<and> persist)"
  shows "\<exists>ts. trackers p' = Some ts
           \<and> ts = [next_ref w ..< next_ref w']
           \<and> length (filter is_Construct (emitted w w')) = length ts
           \<and> length ts = (if from_img p \<and> 1 \<le> bs p \<and> \<not> multiple_videos then 1 else bs p)
           \<and> (length ts = 1 \<longleftrightarrow>
                (from_img p \<and> 1 \<le> bs p \<and> \<not> multiple_videos) \<or> bs p = 1)"
proof -
  from on_predict_start_None [OF run enter] obtain f c v k n where
    n: "n = (if from_img p \<and> 1 \<le> bs p \<and> \<not> multiple_videos then 1 else bs p)" and
    p': "p' = p\<lparr>trackers := Some [next_ref w ..< next_ref w + n]\<rparr>" and
    nr: "next_ref w' = next_ref w + n" and
    tr: "trace w' = trace w @ [CheckYaml (args_tracker p), YamlLoad f]
                           @ replicate n (Construct k c 30)"
    by blast
  have em: "filter is_Construct (emitted w w') = replicate n (Construct k c 30)"
    using emitted_append [OF tr] length_filter_replicate_Construct by metis
  have "trackers p' = Some [next_ref w ..< next_ref w']" using p' nr by simp
  moreover have "length (filter is_Construct (emitted w w')) = length [next_ref w ..< next_ref w']"
    using em nr by simp
  moreover have "length [next_ref w ..< next_ref w']
      = (if from_img p \<and> 1 \<le> bs p \<and> \<not> multiple_videos then 1 else bs p)"
    using nr n by simp
  ultimately show ?thesis by auto
qed

theorem stream_assignment_count_witness:
  "(\<exists>ts. trackers (fst (snd (on_predict_start stub_env False False still_images (fresh_world 0))))
          = Some ts \<and> length ts = 1)
   \<and> (\<exists>ts. trackers (fst (snd (on_predict_start stub_env False True still_images (fresh_world 0))))
          = Some ts \<and> length ts = 3)"
proof -
  obtain w1 where
    r1: "on_predict_start stub_env False False still_images (fresh_world 0)
           = (None, still_images\<lparr>trackers := Some [0]\<rparr>, w1)"
    using start_shared by blast
  obtain w3 where
    r3: "on_predict_start stub_env False True still_images (fresh_world 0)
           = (None, still_images\<lparr>trackers := Some [0, 1, 2]\<rparr>, w3)"
    using start_per_slot by blast
  have enter: "\<not> (trackers still_images \<noteq> None \<and> False)" by simp
  from stream_assignment_count [OF r1 enter] obtain ts1 where
    t1: "trackers (still_images\<lparr>trackers := Some [0]\<rparr>) = Some ts1"
        "length ts1 = (if from_img still_images \<and> 1 \<le> bs still_images \<and> \<not> False
                       then 1 else bs still_images)"
    by blast
  from stream_assignment_count [OF r3 enter] obtain ts3 where
    t3: "trackers (still_images\<lparr>trackers := Some [0, 1, 2]\<rparr>) = Some ts3"
        "length ts3 = (if from_img still_images \<and> 1 \<le> bs still_images \<and> \<not> True
                       then 1 else bs still_images)"
    by blast
  have "length ts1 = 1" using t1(2) by (simp add: still_images_def)
  moreover have "length ts3 = 3" using t3(2) by (simp add: still_images_def)
  ultimately show ?thesis using t1(1) t3(1) r1 r3 by simp
qed

text \<open>
  Claim C1 as stated fails in its "only if" half: for in-memory images, a batch of one
  slot and \<open>multiple_videos\<close> true, the condition of the shared mode is false, and
  initialisation still stores exactly one tracker.
\<close>

theorem stream_assignment_iff_counterexample:
  "fst (on_predict_start stub_env False True (still_images\<lparr>bs := 1\<rparr>) (fresh_world 0)) = None
   \<and> trackers (fst (snd (on_predict_start stub_env False True (still_images\<lparr>bs := 1\<rparr>)
          (fresh_world 0)))) = Some [0]
   \<and> length [0::nat] = 1
   \<and> \<not> (from_img (still_images\<lparr>bs := 1\<rparr>) \<and> 1 \<le> bs (still_images\<lparr>bs := 1\<rparr>) \<and> \<not> True)"
  by (simp add: on_predict_start_def stub_env_def still_images_def fresh_world_def log_def
      new_tracker_def getattr_def TRACKER_MAP_def Let_def)

text \<open>
  Claim C3. When the configuration that initialisation reads has a \<open>tracker_type\<close>
  other than \<open>bytetrack\<close> and \<open>botsort\<close>, the call raises the assertion error whose
  message contains the offending value and both supported names; no constructor has been
  called, no object has been allocated, and the predictor is as before.
\<close>

theorem unsupported_tracker_type_rejected:
  assumes enter: "\<not> (trackers p \<noteq> None \<and> persist)"
    and path: "check_yaml env (args_tracker p) = Inr f"
    and load: "yaml_load env f = Inr c"
    and attr: "map_of c ''tracker_type'' = Some v"
    and bad: "v \<notin> set [YStr ''bytetrack'', YStr ''botsort'']"
  shows "\<exists>w'. on_predict_start env persist multiple_videos p w
                 = (Some (AssertionError (unsupported_message v)), p, w')
           \<and> sublist (py_str v) (unsupported_message v)
           \<and> sublist ''bytetrack'' (unsupported_message v)
           \<and> sublist ''botsort'' (unsupported_message v)
           \<and> filter is_Construct (emitted w w') = []
           \<and> next_ref w' = next_ref w \<and> heap w' = heap w"
proof -
  let ?w' = "log (YamlLoad f) (log (CheckYaml (args_tracker p)) w)"
  have run: "on_predict_start env persist multiple_videos p w
                 = (Some (AssertionError (unsupported_message v)), p, ?w')"
    using assms by (auto simp: on_predict_start_def Let_def getattr_def)
  have tr: "trace ?w' = trace w @ [CheckYaml (args_tracker p), YamlLoad f]"
    by (simp add: log_def)
  have s1: "sublist (py_str v) (unsupported_message v)"
    unfolding unsupported_message_def quoted_def sublist_def
    by (rule exI [of _ "''Only support '' @ (CHR 0x27 # ''bytetrack'' @ [CHR 0x27]) @ '' and ''
          @ (CHR 0x27 # ''botsort'' @ [CHR 0x27]) @ '' for now, but got '' @ [CHR 0x27]"],
        rule exI [of _ "[CHR 0x27]"]) simp
  have s2: "sublist ''bytetrack'' (unsupported_message v)"
    unfolding unsupported_message_def quoted_def sublist_def
    by (rule exI [of _ "''Only support '' @ [CHR 0x27]"],
        rule exI [of _ "[CHR 0x27] @ '' and ''
          @ (CHR 0x27 # ''botsort'' @ [CHR 0x27]) @ '' for now, but got ''
          @ (CHR 0x27 # py_str v @ [CHR 0x27])"]) simp
  have s3: "sublist ''botsort'' (unsupported_message v)"
    unfolding unsupported_message_def quoted_def sublist_def
    by (rule exI [of _ "''Only support '' @ (CHR 0x27 # ''bytetrack'' @ [CHR 0x27]) @ '' and ''
          @ [CHR 0x27]"],
        rule exI [of _ "[CHR 0x27] @ '' for now, but got ''
          @ (CHR 0x27 # py_str v @ [CHR 0x27])"]) simp
  have "filter is_Construct (emitted w ?w') = []"
    using emitted_append [OF tr] by simp
  moreover have "next_ref ?w' = next_ref w \<and> heap ?w' = heap w" by (simp add: log_def)
  ultimately show ?thesis using run s1 s2 s3 by blast
qed

theorem unsupported_tracker_type_rejected_witness:
  "\<exists>w'. on_predict_start stub_env False False (still_images\<lparr>args_tracker := ''sort.yaml''\<rparr>)
           (fresh_world 0)
          = (Some (AssertionError (unsupported_message (YStr ''sort''))),
             still_images\<lparr>args_tracker := ''sort.yaml''\<rparr>, w')
     \<and> sublist ''sort'' (unsupported_message (YStr ''sort''))
     \<and> next_ref w' = 0"
proof -
  let ?p = "still_images\<lparr>args_tracker := ''sort.yaml''\<rparr>"
  have enter: "\<not> (trackers ?p \<noteq> None \<and> False)" by simp
  have path: "check_yaml stub_env (args_tracker ?p) = Inr ''sort.yaml''"
    by (simp add: stub_env_def)
  have load: "yaml_load stub_env ''sort.yaml'' = Inr [(''tracker_type'', YStr ''sort'')]"
    by (simp add: stub_env_def)
  have attr: "map_of [(''tracker_type'', YStr ''sort'')] ''tracker_type'' = Some (YStr ''sort'')"
    by simp
  have bad: "YStr ''sort'' \<notin> set [YStr ''bytetrack'', YStr ''botsort'']" by simp
  show ?thesis
    using unsupported_tracker_type_rejected [OF enter path load attr bad, of False "fresh_world 0"]
    by (auto simp: fresh_world_def)
qed

text \<open>
  Claim C4. When the predictor already has a tracker list and \<open>persist\<close> is true,
  initialisation returns at once: the predictor and the world are the ones given, so no
  configuration is read and nothing is constructed. After an initialisation with
  \<open>persist\<close> that returned normally a tracker list exists, and every further
  initialisation with \<open>persist\<close> leaves the same list of the same objects.
\<close>

theorem persist_reentry_noop:
  "(trackers p \<noteq> None \<longrightarrow> on_predict_start env True multiple_videos p w = (None, p, w))
   \<and> (on_predict_start env True multiple_videos p w = (None, p1, w1) \<longrightarrow>
        trackers p1 \<noteq> None
        \<and> (\<forall>mv w2. on_predict_start env True mv p1 w2 = (None, p1, w2)))"
proof (intro conjI impI)
  assume "trackers p \<noteq> None"
  then show "on_predict_start env True multiple_videos p w = (None, p, w)"
    by (rule on_predict_start_noop)
next
  assume run: "on_predict_start env True multiple_videos p w = (None, p1, w1)"
  show "trackers p1 \<noteq> None"
  proof (cases "trackers p \<noteq> None")
    case True
    with run show ?thesis by (simp add: on_predict_start_def)
  next
    case False
    then have "\<not> (trackers p \<noteq> None \<and> True)" by simp
    from on_predict_start_None [OF run this] show ?thesis by auto
  qed
  then show "\<forall>mv w2. on_predict_start env True mv p1 w2 = (None, p1, w2)"
    by (simp add: on_predict_start_noop)
qed

theorem persist_reentry_noop_witness:
  "on_predict_start stub_env True False (still_images\<lparr>trackers := Some [0]\<rparr>) (fresh_world 1)
     = (None, still_images\<lparr>trackers := Some [0]\<rparr>, fresh_world 1)
   \<and> (\<exists>p1 w1. on_predict_start stub_env True False still_images (fresh_world 0) = (None, p1, w1)
        \<and> trackers p1 = Some [0]
        \<and> on_predict_start stub_env True False p1 w1 = (None, p1, w1))"
proof -
  obtain w1 where
    r1: "on_predict_start stub_env True False still_images (fresh_world 0)
           = (None, still_images\<lparr>trackers := Some [0]\<rparr>, w1)"
    by (simp add: on_predict_start_def stub_env_def still_images_def fresh_world_def log_def
      new_tracker_def getattr_def TRACKER_MAP_def Let_def)
  have t: "trackers (still_images\<lparr>trackers := Some [0]\<rparr>) \<noteq> None" by simp
  note a = persist_reentry_noop [where p = "still_images\<lparr>trackers := Some [0]\<rparr>"
      and env = stub_env and multiple_videos = False and w = "fresh_world 1",
      THEN conjunct1, rule_format, OF t]
  note b = persist_reentry_noop [where p = still_images and env = stub_env
      and multiple_videos = False and w = "fresh_world 0"
      and ?p1.0 = "still_images\<lparr>trackers := Some [0]\<rparr>" and ?w1.0 = w1,
      THEN conjunct2, rule_format, OF r1]
  from b have "on_predict_start stub_env True False (still_images\<lparr>trackers := Some [0]\<rparr>) w1
      = (None, still_images\<lparr>trackers := Some [0]\<rparr>, w1)" by blast
  with a r1 show ?thesis by simp
qed

text \<open>
  Claim C5. An initialisation with \<open>persist\<close> false that returns normally replaces the
  prior tracker list by the objects it has just constructed: no reference of the prior
  list (all of them allocated before the call) is in the new list.
\<close>

theorem replacement_discards_prior_set:
  assumes run: "on_predict_start env False multiple_videos p w = (None, p', w')"
    and prior: "trackers p = Some old"
    and allocated: "\<forall>a \<in> set old. a < next_ref w"
  shows "\<exists>new. trackers p' = Some new
           \<and> set new \<inter> set old = {}
           \<and> new = [next_ref w ..< next_ref w']
           \<and> length (filter is_Construct (emitted w w')) = length new"
proof -
  have enter: "\<not> (trackers p \<noteq> None \<and> False)" by simp
  from on_predict_start_None [OF run enter] obtain f c v k n where
    p': "p' = p\<lparr>trackers := Some [next_ref w ..< next_ref w + n]\<rparr>" and
    nr: "next_ref w' = next_ref w + n" and
    tr: "trace w' = trace w @ [CheckYaml (args_tracker p), YamlLoad f]
                           @ replicate n (Construct k c 30)"
    by blast
  have em: "filter is_Construct (emitted w w') = replicate n (Construct k c 30)"
    using emitted_append [OF tr] length_filter_replicate_Construct by metis
  have "set [next_ref w ..< next_ref w'] \<inter> set old = {}"
    using allocated by fastforce
  moreover have "trackers p' = Some [next_ref w ..< next_ref w']" using p' nr by simp
  moreover have "length (filter is_Construct (emitted w w')) = length [next_ref w ..< next_ref w']"
    using em nr by simp
  ultimately show ?thesis by blast
qed

theorem replacement_discards_prior_set_witness:
  "\<exists>w'. on_predict_start stub_env False False (still_images\<lparr>trackers := Some [0]\<rparr>)
          (fresh_world 1) = (None, still_images\<lparr>trackers := Some [1]\<rparr>, w')
      \<and> set [1] \<inter> set [0::nat] = {}"
proof -
  let ?p = "still_images\<lparr>trackers := Some [0]\<rparr>"
  obtain w' where
    run: "on_predict_start stub_env False False ?p (fresh_world 1)
           = (None, still_images\<lparr>trackers := Some [1]\<rparr>, w')"
    by (simp add: on_predict_start_def stub_env_def still_images_def fresh_world_def log_def
      new_tracker_def getattr_def TRACKER_MAP_def Let_def)
  have prior: "trackers ?p = Some [0]" by simp
  have allocated: "\<forall>a \<in> set [0::nat]. a < next_ref (fresh_world 1)"
    by (simp add: fresh_world_def)
  from replacement_discards_prior_set [OF run prior allocated] obtain new where
    "trackers (still_images\<lparr>trackers := Some [1]\<rparr>) = Some new" "set new \<inter> set [0::nat] = {}"
    by blast
  then have "set [1] \<inter> set [0::nat] = {}" by simp
  with run show ?thesis by blast
qed

text \<open>
  Claim C6. When initialisation raises, whatever the error and whether or not some
  constructor calls had succeeded before, the predictor is as before the call. When it
  returns normally it was either skipped by the persist guard, leaving the predictor as it
  was, or it has stored the full list (one tracker in the shared mode, \<open>bs\<close> otherwise).
\<close>

theorem initialization_atomic:
  assumes run: "on_predict_start env persist multiple_videos p w = (out, p', w')"
  shows "(out \<noteq> None \<longrightarrow> p' = p)
         \<and> (out = None \<longrightarrow>
              (if trackers p \<noteq> None \<and> persist then p' = p
               else \<exists>ts. p' = p\<lparr>trackers := Some ts\<rparr>
                      \<and> length ts = (if from_img p \<and> 1 \<le> bs p \<and> \<not> multiple_videos
                                     then 1 else bs p)))"
proof (intro conjI impI)
  assume "out \<noteq> None"
  then obtain e where "out = Some e" by auto
  with run show "p' = p" using on_predict_start_Some by blast
next
  assume none: "out = None"
  show "if trackers p \<noteq> None \<and> persist then p' = p
        else \<exists>ts. p' = p\<lparr>trackers := Some ts\<rparr>
               \<and> length ts = (if from_img p \<and> 1 \<le> bs p \<and> \<not> multiple_videos then 1 else bs p)"
  proof (cases "trackers p \<noteq> None \<and> persist")
    case True
    with run show ?thesis by (simp add: on_predict_start_def)
  next
    case False
    from run none have r: "on_predict_start env persist multiple_videos p w = (None, p', w')"
      by simp
    from on_predict_start_None [OF r False] obtain n where
      "n = (if from_img p \<and> 1 \<le> bs p \<and> \<not> multiple_videos then 1 else bs p)"
      "p' = p\<lparr>trackers := Some [next_ref w ..< next_ref w + n]\<rparr>"
      by blast
    then have "p' = p\<lparr>trackers := Some [next_ref w ..< next_ref w + n]\<rparr>
        \<and> length [next_ref w ..< next_ref w + n]
           = (if from_img p \<and> 1 \<le> bs p \<and> \<not> multiple_videos then 1 else bs p)"
      by simp
    then show ?thesis using False by (simp only: if_False) blast
  qed
qed

theorem initialization_atomic_witness:
  "\<exists>w'. on_predict_start stub_env False True (still_images\<lparr>trackers := Some [0]\<rparr>)
          (fresh_world 3)
        = (Some (External ''out of memory''), still_images\<lparr>trackers := Some [0]\<rparr>, w')
      \<and> next_ref w' = 4"
proof -
  let ?p = "still_images\<lparr>trackers := Some [0]\<rparr>"
  obtain out p' w' where
    run: "on_predict_start stub_env False True ?p (fresh_world 3) = (out, p', w')"
    by (cases "on_predict_start stub_env False True ?p (fresh_world 3)") auto
  have ev: "fst (on_predict_start stub_env False True ?p (fresh_world 3))
              = Some (External ''out of memory'')
            \<and> next_ref (snd (snd (on_predict_start stub_env False True ?p (fresh_world 3)))) = 4"
    by (simp add: on_predict_start_def stub_env_def still_images_def fresh_world_def log_def
      new_tracker_def getattr_def TRACKER_MAP_def Let_def eval_nat_numeral)
  from ev run have out: "out = Some (External ''out of memory'')" and nr: "next_ref w' = 4"
    by simp_all
  from initialization_atomic [OF run] out have "p' = ?p" by simp
  with run out nr show ?thesis by simp
qed

text \<open>
  Claim C9. All constructor calls of one initialisation get the same class (the entry of
  \<^verbatim>\<open>TRACKER_MAP\<close> for the configured type), the same configuration, namely the one
  loaded from the predictor's tracker file, and the frame rate 30; every stored tracker
  is the object such a call returned.
\<close>

theorem uniform_seeding:
  assumes run: "on_predict_start env persist multiple_videos p w = (None, p', w')"
    and enter: "\<not> (trackers p \<noteq> None \<and> persist)"
  shows "\<exists>f c v k ts. check_yaml env (args_tracker p) = Inr f \<and> yaml_load env f = Inr c
           \<and> getattr c ''tracker_type'' = Inr v \<and> TRACKER_MAP_getitem v = Inr k
           \<and> trackers p' = Some ts
           \<and> filter is_Construct (emitted w w') = replicate (length ts) (Construct k c 30)
           \<and> (\<forall>a \<in> set ts. construct env k c 30 a = Inr (heap w' a))"
proof -
  from on_predict_start_None [OF run enter] obtain f c v k n where
    f: "check_yaml env (args_tracker p) = Inr f" and c: "yaml_load env f = Inr c" and
    v: "getattr c ''tracker_type'' = Inr v" and k: "TRACKER_MAP_getitem v = Inr k" and
    p': "p' = p\<lparr>trackers := Some [next_ref w ..< next_ref w + n]\<rparr>" and
    tr: "trace w' = trace w @ [CheckYaml (args_tracker p), YamlLoad f]
                           @ replicate n (Construct k c 30)" and
    new: "\<forall>a. next_ref w \<le> a \<and> a < next_ref w + n \<longrightarrow>
                  construct env k c 30 a = Inr (heap w' a)"
    by blast
  let ?ts = "[next_ref w ..< next_ref w + n]"
  have em: "filter is_Construct (emitted w w') = replicate (length ?ts) (Construct k c 30)"
    using emitted_append [OF tr] length_filter_replicate_Construct [of _ _ n k c 30] by simp
  have t: "trackers p' = Some ?ts" using p' by simp
  have h: "\<forall>a \<in> set ?ts. construct env k c 30 a = Inr (heap w' a)" using new by simp
  from f c v k t em h show ?thesis
    by (intro exI [of _ f] exI [of _ c] exI [of _ v] exI [of _ k] exI [of _ ?ts] conjI)
qed

theorem uniform_seeding_witness:
  "\<exists>w'. on_predict_start stub_env False True still_images (fresh_world 0)
          = (None, still_images\<lparr>trackers := Some [0, 1, 2]\<rparr>, w')
      \<and> filter is_Construct (emitted (fresh_world 0) w')
          = replicate 3 (Construct BYTETracker [(''tracker_type'', YStr ''bytetrack'')] 30)"
proof -
  obtain w' where
    run: "on_predict_start stub_env False True still_images (fresh_world 0)
           = (None, still_images\<lparr>trackers := Some [0, 1, 2]\<rparr>, w')"
    using start_per_slot by blast
  have enter: "\<not> (trackers still_images \<noteq> None \<and> False)" by simp
  from uniform_seeding [OF run enter] obtain f c v k ts where
    f: "check_yaml stub_env (args_tracker still_images) = Inr f" and
    c: "yaml_load stub_env f = Inr c" and
    v: "getattr c ''tracker_type'' = Inr v" and k: "TRACKER_MAP_getitem v = Inr k" and
    ts: "trackers (still_images\<lparr>trackers := Some [0, 1, 2]\<rparr>) = Some ts" and
    em: "filter is_Construct (emitted (fresh_world 0) w') = replicate (length ts) (Construct k c 30)"
    by blast
  from f have f': "f = ''bytetrack.yaml''" by (simp add: stub_env_def still_images_def)
  from c f' have c': "c = [(''tracker_type'', YStr ''bytetrack'')]" by (simp add: stub_env_def)
  from v c' have v': "v = YStr ''bytetrack''" by (simp add: getattr_def)
  from k v' have k': "k = BYTETracker" by (simp add: TRACKER_MAP_def)
  from ts have "length ts = 3" by auto
  with em c' k' run show ?thesis by simp
qed

text \<open>
  Claim C2. For a slot whose tracker returned a non-empty list of tracks, each referring
  to a detection of the slot, the new result of the slot has one entry per track, in the
  order of the tracks: entry \<open>n\<close> is the detection the \<open>n\<close>-th track refers to, with its
  box data replaced by the data of that track. Detections no track refers to do not occur.
\<close>

theorem reconciliation_content_and_order:
  assumes run: "on_predict_postprocess_end env multiple_videos p w = (out, p', w')"
    and call: "Update i j a tr \<in> set (emitted w w')"
    and tracks: "tr \<noteq> []"
    and refs: "\<forall>t \<in> set tr. tidx t < length (results p ! i)"
  shows "results p' ! i = map (\<lambda>t. Detection (tdata t) (payload (results p ! i ! tidx t))) tr
         \<and> length (results p' ! i) = length tr
         \<and> map boxes (results p' ! i) = map tdata tr
         \<and> map payload (results p' ! i) = map (\<lambda>t. payload (results p ! i ! tidx t)) tr"
proof -
  from postprocess_effect [OF run] call obtain i' ts tr' where
    e: "Update i j a tr = Update i'
          (if from_img p \<and> 1 \<le> bs p \<and> \<not> multiple_videos then 0 else i')
          (ts ! (if from_img p \<and> 1 \<le> bs p \<and> \<not> multiple_videos then 0 else i')) tr'" and
    r: "results p' ! i' = reconciled (results p ! i') tr'"
    by blast
  from e have "i' = i" "tr' = tr" by simp_all
  with r have "results p' ! i = reconciled (results p ! i) tr" by simp
  also have "\<dots> = map (\<lambda>t. Detection (tdata t) (payload (results p ! i ! tidx t))) tr"
    using tracks refs by (rule reconciled_in_range)
  finally have eq: "results p' ! i
      = map (\<lambda>t. Detection (tdata t) (payload (results p ! i ! tidx t))) tr" .
  then show ?thesis by (simp add: comp_def)
qed

theorem reconciliation_content_and_order_witness:
  "\<exists>w'. on_predict_postprocess_end stub_env False (still_images\<lparr>trackers := Some [0]\<rparr>)
           (fresh_world 1)
         = (None,
            still_images\<lparr>trackers := Some [0],
              results := [[Detection 92 102, Detection 90 100], [], [Detection 13 103]]\<rparr>, w')
     \<and> Update 0 0 0 [Track 92 2, Track 90 0] \<in> set (emitted (fresh_world 1) w')
     \<and> map payload
          (results (still_images\<lparr>trackers := Some [0],
              results := [[Detection 92 102, Detection 90 100], [], [Detection 13 103]]\<rparr>) ! 0)
         = [102, 100]"
proof -
  let ?p = "still_images\<lparr>trackers := Some [0]\<rparr>"
  let ?p' = "still_images\<lparr>trackers := Some [0],
              results := [[Detection 92 102, Detection 90 100], [], [Detection 13 103]]\<rparr>"
  let ?tr = "[Track 92 2, Track 90 0] :: nat track list"
  obtain w' where
    run: "on_predict_postprocess_end stub_env False ?p (fresh_world 1) = (None, ?p', w')" and
    tr: "trace w' = [Update 0 0 0 ?tr, Update 2 0 0 []]"
    using post_shared by blast
  have call: "Update 0 0 0 ?tr \<in> set (emitted (fresh_world 1) w')"
    using tr by (simp add: emitted_def fresh_world_def)
  have tracks: "?tr \<noteq> []" by simp
  have refs: "\<forall>t \<in> set ?tr. tidx t < length (results ?p ! 0)"
    by (simp add: still_images_def)
  from reconciliation_content_and_order [OF run call tracks refs]
  have "map payload (results ?p' ! 0) = map (\<lambda>t. payload (results ?p ! 0 ! tidx t)) ?tr"
    by blast
  then have "map payload (results ?p' ! 0) = [102, 100]"
    by (simp add: still_images_def)
  with run call show ?thesis by (intro exI [of _ w'] conjI)
qed

text \<open>
  Claim C7. A slot whose detection list is empty keeps its result, and no \<^verbatim>\<open>update\<close>
  call is issued for it; a slot whose \<^verbatim>\<open>update\<close> call returned no track keeps its
  result too. Neither raises: the loop body returns normally on an empty slot without any
  effect, returns normally when the tracker answers with no track, and a batch of empty
  slots is passed without any effect at all.
\<close>

theorem empty_sets_are_noops:
  assumes run: "on_predict_postprocess_end env multiple_videos p w = (out, p', w')"
  shows "(\<forall>i < length (results p). results p ! i = [] \<longrightarrow>
            results p' ! i = results p ! i
            \<and> (\<forall>e \<in> set (emitted w w'). update_slot e \<noteq> Some i))
         \<and> (\<forall>i j a. Update i j a [] \<in> set (emitted w w') \<longrightarrow> results p' ! i = results p ! i)
         \<and> ((\<forall>i < bs p. i < length (results p) \<and> results p ! i = []) \<longrightarrow>
              out = None \<and> p' = p \<and> w' = w)
         \<and> (\<forall>b ims i. i < length (results p) \<and> results p ! i = [] \<longrightarrow>
              slot_step env b ims i p w = (None, p, w))
         \<and> (\<forall>b ims i j a o1 p1 w1.
              slot_step env b ims i p w = (o1, p1, w1) \<and> Update i j a [] \<in> set (emitted w w1) \<longrightarrow>
              o1 = None \<and> p1 = p)"
proof -
  note eff = postprocess_effect [OF run]
  have A: "\<forall>i < length (results p). results p ! i = [] \<longrightarrow>
            results p' ! i = results p ! i
            \<and> (\<forall>e \<in> set (emitted w w'). update_slot e \<noteq> Some i)"
  proof (intro allI impI)
    fix i assume i: "i < length (results p)" and empty: "results p ! i = []"
    have none: "\<forall>e \<in> set (emitted w w'). update_slot e \<noteq> Some i"
    proof
      fix e assume "e \<in> set (emitted w w')"
      with eff obtain k ts tr where
        "e = Update k (if from_img p \<and> 1 \<le> bs p \<and> \<not> multiple_videos then 0 else k)
               (ts ! (if from_img p \<and> 1 \<le> bs p \<and> \<not> multiple_videos then 0 else k)) tr"
        "results p ! k \<noteq> []"
        by blast
      with empty show "update_slot e \<noteq> Some i" by auto
    qed
    with eff have "results p' ! i = results p ! i" by blast
    with none show "results p' ! i = results p ! i
            \<and> (\<forall>e \<in> set (emitted w w'). update_slot e \<noteq> Some i)" by blast
  qed
  have B: "\<forall>i j a. Update i j a [] \<in> set (emitted w w') \<longrightarrow> results p' ! i = results p ! i"
  proof (intro allI impI)
    fix i j a assume "Update i j a [] \<in> set (emitted w w')"
    with eff obtain k ts tr where
      e: "Update i j a [] = Update k
            (if from_img p \<and> 1 \<le> bs p \<and> \<not> multiple_videos then 0 else k)
            (ts ! (if from_img p \<and> 1 \<le> bs p \<and> \<not> multiple_videos then 0 else k)) tr" and
      r: "results p' ! k = reconciled (results p ! k) tr"
      by blast
    from e have "k = i" "tr = []" by simp_all
    with r show "results p' ! i = results p ! i" by (simp add: reconciled_empty)
  qed
  have C: "(\<forall>i < bs p. i < length (results p) \<and> results p ! i = []) \<longrightarrow>
              out = None \<and> p' = p \<and> w' = w"
  proof
    assume all: "\<forall>i < bs p. i < length (results p) \<and> results p ! i = []"
    have loop: "\<forall>i \<in> set sl. i < bs p \<Longrightarrow> slots_loop env b ims sl p w = (None, p, w)"
      for sl b ims
      using all by (induction sl) (simp_all add: slot_step_empty)
    have "on_predict_postprocess_end env multiple_videos p w = (None, p, w)"
      by (simp add: on_predict_postprocess_end_def Let_def loop)
    with run show "out = None \<and> p' = p \<and> w' = w" by simp
  qed
  have D: "\<forall>b ims i. i < length (results p) \<and> results p ! i = [] \<longrightarrow>
              slot_step env b ims i p w = (None, p, w)"
    by (simp add: slot_step_empty)
  have E: "\<forall>b ims i j a o1 p1 w1.
              slot_step env b ims i p w = (o1, p1, w1) \<and> Update i j a [] \<in> set (emitted w w1) \<longrightarrow>
              o1 = None \<and> p1 = p"
  proof (intro allI impI)
    fix b ims i j a o1 p1 w1
    assume h: "slot_step env b ims i p w = (o1, p1, w1) \<and> Update i j a [] \<in> set (emitted w w1)"
    then have step: "slot_step env b ims i p w = (o1, p1, w1)" and
      ev: "Update i j a [] \<in> set (emitted w w1)" by simp_all
    from step show "o1 = None \<and> p1 = p"
    proof (cases rule: slot_step_cases)
      case skip
      with ev show ?thesis by (simp add: emitted_self)
    next
      case (call ts tr s')
      from call(7) have "emitted w w1
          = [Update i (if b then 0 else i) (ts ! (if b then 0 else i)) tr]"
        by (simp add: emitted_def)
      with ev have "tr = []" by simp
      with call show ?thesis by simp
    qed
  qed
  from A B C D E show ?thesis by (intro conjI)
qed

theorem empty_sets_are_noops_witness:
  "\<exists>w'. on_predict_postprocess_end stub_env False (still_images\<lparr>trackers := Some [0]\<rparr>)
           (fresh_world 1)
         = (None,
            still_images\<lparr>trackers := Some [0],
              results := [[Detection 92 102, Detection 90 100], [], [Detection 13 103]]\<rparr>, w')
     \<and> results (still_images\<lparr>trackers := Some [0]\<rparr>) ! 1 = []
     \<and> (\<forall>e \<in> set (emitted (fresh_world 1) w'). update_slot e \<noteq> Some 1)
     \<and> Update 2 0 0 [] \<in> set (emitted (fresh_world 1) w')
     \<and> results (still_images\<lparr>trackers := Some [0],
              results := [[Detection 92 102, Detection 90 100], [], [Detection 13 103]]\<rparr>) ! 2
         = results (still_images\<lparr>trackers := Some [0]\<rparr>) ! 2"
proof -
  let ?p = "still_images\<lparr>trackers := Some [0]\<rparr>"
  let ?p' = "still_images\<lparr>trackers := Some [0],
              results := [[Detection 92 102, Detection 90 100], [], [Detection 13 103]]\<rparr>"
  obtain w' where
    run: "on_predict_postprocess_end stub_env False ?p (fresh_world 1) = (None, ?p', w')" and
    tr: "trace w' = [Update 0 0 0 [Track 92 2, Track 90 0], Update 2 0 0 []]"
    using post_shared by blast
  note claim = empty_sets_are_noops [OF run]
  have slot1: "1 < length (results ?p)" "results ?p ! 1 = []"
    by (simp_all add: still_images_def)
  from claim slot1 have a: "\<forall>e \<in> set (emitted (fresh_world 1) w'). update_slot e \<noteq> Some 1"
    by blast
  have call: "Update 2 0 0 [] \<in> set (emitted (fresh_world 1) w')"
    using tr by (simp add: emitted_def fresh_world_def)
  from claim call have b: "results ?p' ! 2 = results ?p ! 2" by blast
  from run slot1(2) a call b show ?thesis by (intro exI [of _ w'] conjI)
qed



text \<open>
  Claim C10. A reconciliation pass changes nothing of the predictor but entries of
  \<^verbatim>\<open>predictor.results\<close>: the tracker list and the number of results are as before, no
  object is allocated, and a slot whose result differs afterwards is a slot of the batch
  that had detections and whose \<^verbatim>\<open>update\<close> call returned tracks. Only objects of
  the tracker list change their state.
\<close>

theorem reconciliation_frame:
  assumes run: "on_predict_postprocess_end env multiple_videos p w = (out, p', w')"
  shows "p' = p\<lparr>results := results p'\<rparr>
         \<and> trackers p' = trackers p
         \<and> length (results p') = length (results p)
         \<and> next_ref w' = next_ref w
         \<and> (\<forall>k. results p' ! k \<noteq> results p ! k \<longrightarrow>
              k < bs p \<and> k < length (results p) \<and> results p ! k \<noteq> []
              \<and> (\<exists>j a tr. Update k j a tr \<in> set (emitted w w') \<and> tr \<noteq> []))
         \<and> (\<forall>a. heap w' a \<noteq> heap w a \<longrightarrow>
              (\<exists>ts. trackers p = Some ts \<and> a \<in> set ts))"
proof -
  note eff = postprocess_effect [OF run]
  from eff have A: "p' = p\<lparr>results := results p'\<rparr>" by blast
  then have "trackers p' = trackers (p\<lparr>results := results p'\<rparr>)" by simp
  then have B: "trackers p' = trackers p" by simp
  from eff have C: "length (results p') = length (results p)" and
    D: "next_ref w' = next_ref w" by blast+
  have E: "\<forall>k. results p' ! k \<noteq> results p ! k \<longrightarrow>
              k < bs p \<and> k < length (results p) \<and> results p ! k \<noteq> []
              \<and> (\<exists>j a tr. Update k j a tr \<in> set (emitted w w') \<and> tr \<noteq> [])"
  proof (intro allI impI)
    fix k assume diff: "results p' ! k \<noteq> results p ! k"
    with eff have "\<not> (\<forall>e \<in> set (emitted w w'). update_slot e \<noteq> Some k)" by blast
    then obtain e where e: "e \<in> set (emitted w w')" "update_slot e = Some k" by blast
    with eff obtain i ts tr where i: "i < bs p"
      "e = Update i (if from_img p \<and> 1 \<le> bs p \<and> \<not> multiple_videos then 0 else i)
              (ts ! (if from_img p \<and> 1 \<le> bs p \<and> \<not> multiple_videos then 0 else i)) tr"
      "i < length (results p)" "results p ! i \<noteq> []"
      "results p' ! i = reconciled (results p ! i) tr"
      by blast
    from e(2) i(2) have ik: "i = k" by simp
    have "tr \<noteq> []"
    proof
      assume "tr = []"
      with i(5) ik have "results p' ! k = results p ! k" by (simp add: reconciled_empty)
      with diff show False by simp
    qed
    with e(1) i ik show "k < bs p \<and> k < length (results p) \<and> results p ! k \<noteq> []
              \<and> (\<exists>j a tr. Update k j a tr \<in> set (emitted w w') \<and> tr \<noteq> [])"
      by blast
  qed
  have F: "\<forall>a. heap w' a \<noteq> heap w a \<longrightarrow> (\<exists>ts. trackers p = Some ts \<and> a \<in> set ts)"
  proof (intro allI impI)
    fix a assume "heap w' a \<noteq> heap w a"
    with eff have "\<not> (\<forall>i j tr. Update i j a tr \<notin> set (emitted w w'))" by blast
    then obtain i j tr where m: "Update i j a tr \<in> set (emitted w w')" by blast
    with eff obtain i' ts tr' where
      "Update i j a tr = Update i'
         (if from_img p \<and> 1 \<le> bs p \<and> \<not> multiple_videos then 0 else i')
         (ts ! (if from_img p \<and> 1 \<le> bs p \<and> \<not> multiple_videos then 0 else i')) tr'"
      "trackers p = Some ts"
      "(if from_img p \<and> 1 \<le> bs p \<and> \<not> multiple_videos then 0 else i') < length ts"
      by blast
    then show "\<exists>ts. trackers p = Some ts \<and> a \<in> set ts" by auto
  qed
  from A B C D E F show ?thesis by (intro conjI)
qed

theorem reconciliation_frame_witness:
  "\<exists>p' w'. on_predict_postprocess_end stub_env True (still_images\<lparr>trackers := Some [0, 1, 2]\<rparr>)
           (fresh_world 3) = (None, p', w')
     \<and> trackers p' = Some [0, 1, 2]
     \<and> results p' ! 0 \<noteq> results (still_images\<lparr>trackers := Some [0, 1, 2]\<rparr>) ! 0
     \<and> (\<exists>j a tr. Update 0 j a tr \<in> set (emitted (fresh_world 3) w') \<and> tr \<noteq> [])
     \<and> heap w' 1 = heap (fresh_world 3) 1"
proof -
  let ?p = "still_images\<lparr>trackers := Some [0, 1, 2]\<rparr>"
  let ?p' = "still_images\<lparr>trackers := Some [0, 1, 2],
              results := [[Detection 92 102, Detection 90 100], [], [Detection 13 103]]\<rparr>"
  obtain w' where
    run: "on_predict_postprocess_end stub_env True ?p (fresh_world 3) = (None, ?p', w')" and
    h1: "heap w' 1 = 0"
    using post_per_slot by blast
  note claim = reconciliation_frame [OF run]
  have diff: "results ?p' ! 0 \<noteq> results ?p ! 0" by (simp add: still_images_def)
  from claim have t: "trackers ?p' = trackers ?p" by blast
  from claim diff have ev: "\<exists>j a tr. Update 0 j a tr \<in> set (emitted (fresh_world 3) w') \<and> tr \<noteq> []"
    by blast
  have h: "heap w' 1 = heap (fresh_world 3) 1" using h1 by (simp add: fresh_world_def)
  from t have t': "trackers ?p' = Some [0, 1, 2]" by simp
  from run t' diff ev h show ?thesis by (intro exI [of _ ?p'] exI [of _ w'] conjI)
qed

end
